theory Spec2Isabelle
  imports Main "HOL-Library.Log_Nat"
begin

section \<open>Decoded payloads and Python's dynamic operations\<close>

text \<open>
  \<^verbatim>\<open>client.py\<close> works on whatever \<^verbatim>\<open>json.loads\<close> decodes. A decoded payload is a value of
  \<open>json\<close>: \<open>JNull\<close> is \<^verbatim>\<open>None\<close>, \<open>JArr\<close> a list, \<open>JObj\<close> the items of a dict in insertion
  order (keys distinct, looked up left to right). Numbers are Python ints: the identifiers,
  metrics and grid indices of the service are whole numbers, and JSON floats are outside the
  model. A Python \<^verbatim>\<open>str\<close> is a \<open>string\<close>, one \<open>char\<close> per character.

  An operation that raises in Python returns \<open>Inl\<close> of the exception.
\<close>

datatype json =
    JNull
  | JBool bool
  | JInt int
  | JStr string
  | JArr "json list"
  | JObj "(string \<times> json) list"

datatype py_error = TypeError | AttributeError | OverflowError

text \<open>\<^verbatim>\<open>str(i)\<close> for an int.\<close>

definition digit_char :: "nat \<Rightarrow> char" where
  "digit_char d = ''0123456789'' ! d"

fun digits :: "nat \<Rightarrow> string" where
  "digits n = (if n < 10 then [digit_char n] else digits (n div 10) @ [digit_char (n mod 10)])"

declare digits.simps [simp del]

definition str_int :: "int \<Rightarrow> string" where
  "str_int i = (if i < 0 then CHR ''-'' # digits (nat (- i)) else digits (nat i))"

text \<open>The value of a decimal digit character, and "is a decimal digit of value at most \<open>m\<close>".\<close>

definition digit_val :: "char \<Rightarrow> nat" where
  "digit_val c = of_char c - 48"

definition digit_upto :: "nat \<Rightarrow> char \<Rightarrow> bool" where
  "digit_upto m c = (48 \<le> (of_char c :: nat) \<and> (of_char c :: nat) \<le> 48 + m)"

text \<open>
  Truthiness (\<^verbatim>\<open>if not x\<close>), \<^verbatim>\<open>len(x)\<close> and iteration (\<^verbatim>\<open>for y in x\<close>). Iterating a
  \<^verbatim>\<open>str\<close> gives its characters, iterating a dict its keys; \<^verbatim>\<open>None\<close>, bools and ints have no
  length and are not iterable.
\<close>

fun py_truthy :: "json \<Rightarrow> bool" where
  "py_truthy JNull = False"
| "py_truthy (JBool b) = b"
| "py_truthy (JInt i) = (i \<noteq> 0)"
| "py_truthy (JStr s) = (s \<noteq> [])"
| "py_truthy (JArr xs) = (xs \<noteq> [])"
| "py_truthy (JObj kvs) = (kvs \<noteq> [])"

fun py_iter :: "json \<Rightarrow> py_error + json list" where
  "py_iter (JArr xs) = Inr xs"
| "py_iter (JStr s) = Inr (map (\<lambda>c. JStr [c]) s)"
| "py_iter (JObj kvs) = Inr (map (\<lambda>kv. JStr (fst kv)) kvs)"
| "py_iter JNull = Inl TypeError"
| "py_iter (JBool b) = Inl TypeError"
| "py_iter (JInt i) = Inl TypeError"

fun py_len :: "json \<Rightarrow> py_error + nat" where
  "py_len (JArr xs) = Inr (length xs)"
| "py_len (JStr s) = Inr (length s)"
| "py_len (JObj kvs) = Inr (length kvs)"
| "py_len JNull = Inl TypeError"
| "py_len (JBool b) = Inl TypeError"
| "py_len (JInt i) = Inl TypeError"

text \<open>\<^verbatim>\<open>d.get(key, default)\<close> on a decoded JSON object.\<close>

definition obj_get :: "(string \<times> json) list \<Rightarrow> string \<Rightarrow> json \<Rightarrow> json" where
  "obj_get kvs k dflt = (case map_of kvs k of Some v \<Rightarrow> v | None \<Rightarrow> dflt)"

text \<open>
  A dict the client builds is an association list in insertion order. Its keys are compared
  as Python compares hashable keys: \<^verbatim>\<open>True == 1\<close> and \<^verbatim>\<open>False == 0\<close>, otherwise equal
  values of the same kind. Lists and dicts are unhashable: using one as a key raises
  \<^verbatim>\<open>TypeError\<close>.
\<close>

fun as_int :: "json \<Rightarrow> int option" where
  "as_int (JInt i) = Some i"
| "as_int (JBool b) = Some (if b then 1 else 0)"
| "as_int JNull = None"
| "as_int (JStr s) = None"
| "as_int (JArr xs) = None"
| "as_int (JObj kvs) = None"

definition py_eq :: "json \<Rightarrow> json \<Rightarrow> bool" where
  "py_eq a b =
     (case as_int a of
        Some x \<Rightarrow> (case as_int b of Some y \<Rightarrow> x = y | None \<Rightarrow> False)
      | None \<Rightarrow> (case as_int b of Some y \<Rightarrow> False | None \<Rightarrow> a = b))"

fun hashable :: "json \<Rightarrow> bool" where
  "hashable (JArr xs) = False"
| "hashable (JObj kvs) = False"
| "hashable JNull = True"
| "hashable (JBool b) = True"
| "hashable (JInt i) = True"
| "hashable (JStr s) = True"

fun dict_find :: "json \<Rightarrow> (json \<times> 'v) list \<Rightarrow> 'v option" where
  "dict_find k [] = None"
| "dict_find k ((k', v) # d) = (if py_eq k k' then Some v else dict_find k d)"

text \<open>\<^verbatim>\<open>d[k] = v\<close>: an existing key keeps its place (and its first spelling), a new one goes last.\<close>

fun dict_set :: "json \<Rightarrow> 'v \<Rightarrow> (json \<times> 'v) list \<Rightarrow> (json \<times> 'v) list" where
  "dict_set k v [] = [(k, v)]"
| "dict_set k v ((k', v') # d) = (if py_eq k k' then (k', v) # d else (k', v') # dict_set k v d)"

definition dict_get :: "(json \<times> 'v) list \<Rightarrow> json \<Rightarrow> 'v \<Rightarrow> 'v" where
  "dict_get d k dflt = (case dict_find k d of Some v \<Rightarrow> v | None \<Rightarrow> dflt)"

section \<open>The placement histogram of \<^verbatim>\<open>analysis_top_meta\<close>\<close>

text \<open>
  \<^verbatim>\<open>row_counters = {}
  for cpos in cannons:
      if not isinstance(cpos, list) or len(cpos) < 2: continue
      row_idx = cpos[0]
      row_counters[row_idx] = row_counters.get(row_idx, 0) + 1\<close>
\<close>

fun count_rows :: "json list \<Rightarrow> (json \<times> int) list \<Rightarrow> py_error + (json \<times> int) list" where
  "count_rows [] row_counters = Inr row_counters"
| "count_rows (JArr (row_idx # c # cs) # rest) row_counters =
     (if hashable row_idx
      then count_rows rest (dict_set row_idx (dict_get row_counters row_idx 0 + 1) row_counters)
      else Inl TypeError)"
| "count_rows (cpos # rest) row_counters = count_rows rest row_counters"

text \<open>
  \<^verbatim>\<open>row_counts = [0]*8
  for r in range(8): row_counts[r] = row_counters.get(r, 0)\<close>
\<close>

definition row_counts :: "(json \<times> int) list \<Rightarrow> int list" where
  "row_counts row_counters = map (\<lambda>r. dict_get row_counters (JInt (int r)) 0) [0..<8]"

text \<open>
  \<^verbatim>\<open>hist = [0]*8
  for c in row_counts:
      if 0 <= c <= 7: hist[c] += 1
      else: hist[7] += 1\<close>
\<close>

fun build_hist :: "int list \<Rightarrow> int list \<Rightarrow> int list" where
  "build_hist [] hist = hist"
| "build_hist (c # cs) hist =
     build_hist cs
       (if 0 \<le> c \<and> c \<le> 7 then hist[nat c := hist ! nat c + 1] else hist[7 := hist ! 7 + 1])"

text \<open>The row counts of a record's \<^verbatim>\<open>cannons\<close> value (\<^verbatim>\<open>for cpos in cannons\<close> iterates it).\<close>

definition cannon_row_counts :: "json \<Rightarrow> py_error + int list" where
  "cannon_row_counts cannons =
     (case py_iter cannons of
        Inl e \<Rightarrow> Inl e
      | Inr items \<Rightarrow>
          (case count_rows items [] of
             Inl e \<Rightarrow> Inl e
           | Inr row_counters \<Rightarrow> Inr (row_counts row_counters)))"

text \<open>\<^verbatim>\<open>placement_str = "".join(str(x) for x in hist)\<close>\<close>

definition hist_key :: "int list \<Rightarrow> string" where
  "hist_key rcs = concat (map str_int (build_hist rcs (replicate 8 0)))"

definition placement_str :: "json \<Rightarrow> py_error + string" where
  "placement_str cannons =
     (case cannon_row_counts cannons of
        Inl e \<Rightarrow> Inl e
      | Inr rcs \<Rightarrow> Inr (hist_key rcs))"

text \<open>An entry of \<^verbatim>\<open>cannons\<close> whose row index can be counted: the entry is skipped, or its
  first component is hashable.\<close>

fun row_idx_hashable :: "json \<Rightarrow> bool" where
  "row_idx_hashable (JArr (row_idx # c # cs)) = hashable row_idx"
| "row_idx_hashable cpos = True"

text \<open>How many of the row counts \<open>rcs\<close> the loop above puts into bin \<open>i\<close>.\<close>

definition bin_size :: "int list \<Rightarrow> nat \<Rightarrow> nat" where
  "bin_size rcs i = length (filter (\<lambda>c. (if 0 \<le> c \<and> c \<le> 7 then nat c else 7) = i) rcs)"

section \<open>The transport: one request and one framed response on the shared socket\<close>

subsection \<open>The socket\<close>

text \<open>
  Bytes are \<open>char\<close>s and \<^verbatim>\<open>bytes\<close> values are \<open>string\<close>s; \<^verbatim>\<open>decode("utf-8", errors="replace")\<close> is the
  identity on the ASCII responses the model covers.

  The peer is a script of events, consumed by successive \<^verbatim>\<open>recv\<close> calls: \<open>Chunk bs\<close> are bytes
  that have arrived together (a \<^verbatim>\<open>recv(n)\<close> takes at most \<open>n\<close> of them and leaves the rest),
  \<open>Eof\<close> is the peer closing the connection (\<^verbatim>\<open>recv\<close> returns \<^verbatim>\<open>b""\<close>, from then on), \<open>Fail\<close>
  makes one \<^verbatim>\<open>recv\<close> raise. When the script is used up nothing more ever arrives: there is
  no timeout, so the \<^verbatim>\<open>recv\<close> never returns. \<open>send_budget\<close> is the number of \<^verbatim>\<open>sendall\<close> calls that
  still succeed (\<open>None\<close>: all of them); \<open>outbox\<close> logs what was sent.
\<close>

datatype event = Chunk string | Eof | Fail

record sock =
  inbox :: "event list"
  send_budget :: "nat option"
  outbox :: "string list"

datatype recv_result = Got string sock | Raised sock | Blocked

fun recv_events :: "nat \<Rightarrow> event list \<Rightarrow> (string \<times> event list) option option" where
  "recv_events n [] = None"
| "recv_events n (Eof # es) = Some (Some ([], Eof # es))"
| "recv_events n (Fail # es) = Some None"
| "recv_events n (Chunk bs # es) =
     (if bs = [] then recv_events n es
      else Some (Some (take n bs, if length bs \<le> n then es else Chunk (drop n bs) # es)))"

fun after_fail :: "event list \<Rightarrow> event list" where
  "after_fail [] = []"
| "after_fail (Fail # es) = es"
| "after_fail (Chunk bs # es) = (if bs = [] then after_fail es else Chunk bs # es)"
| "after_fail (Eof # es) = Eof # es"

definition recv :: "nat \<Rightarrow> sock \<Rightarrow> recv_result" where
  "recv n s =
     (case recv_events n (inbox s) of
        None \<Rightarrow> Blocked
      | Some None \<Rightarrow> Raised (s\<lparr>inbox := after_fail (inbox s)\<rparr>)
      | Some (Some (chunk, es)) \<Rightarrow> Got chunk (s\<lparr>inbox := es\<rparr>))"

definition sendall :: "string \<Rightarrow> sock \<Rightarrow> sock option" where
  "sendall data s =
     (case send_budget s of
        None \<Rightarrow> Some (s\<lparr>outbox := outbox s @ [data]\<rparr>)
      | Some 0 \<Rightarrow> None
      | Some (Suc n) \<Rightarrow> Some (s\<lparr>send_budget := Some n, outbox := outbox s @ [data]\<rparr>))"

text \<open>The bytes and events still to come, the measure the read loops go down on.\<close>

fun event_size :: "event \<Rightarrow> nat" where
  "event_size (Chunk bs) = Suc (length bs)"
| "event_size Eof = 1"
| "event_size Fail = 1"

definition pending :: "sock \<Rightarrow> nat" where
  "pending s = sum_list (map event_size (inbox s))"

text \<open>
  What a call on the socket comes to: it returns a value and leaves the socket in a new
  state, or raises, or never returns.
\<close>

datatype 'a outcome = Returns 'a sock | Raises py_error | Blocks

subsection \<open>String operations of the header parser\<close>

definition CRLF :: string where
  "CRLF = [CHR 0x0D, CHR 0x0A]"

definition startswith :: "string \<Rightarrow> string \<Rightarrow> bool" where
  "startswith s p = (take (length p) s = p)"

text \<open>The index of the first occurrence of \<open>sub\<close> (\<^verbatim>\<open>sub in s\<close> when there is one).\<close>

fun find_sub :: "string \<Rightarrow> string \<Rightarrow> nat option" where
  "find_sub sub [] = (if sub = [] then Some 0 else None)"
| "find_sub sub (c # cs) =
     (if startswith (c # cs) sub then Some 0 else map_option Suc (find_sub sub cs))"

definition contains :: "string \<Rightarrow> string \<Rightarrow> bool" where
  "contains sub s = (find_sub sub s \<noteq> None)"

text \<open>\<^verbatim>\<open>s.split(sep, 1)\<close>: the part before the first \<open>sep\<close>, and the part after it when there is one.\<close>

definition split_once :: "string \<Rightarrow> string \<Rightarrow> string \<times> string option" where
  "split_once sep s =
     (case find_sub sep s of
        None \<Rightarrow> (s, None)
      | Some i \<Rightarrow> (take i s, Some (drop (i + length sep) s)))"

text \<open>\<^verbatim>\<open>s.split(sep)\<close> for a non-empty \<open>sep\<close>; \<open>cur\<close> is the piece being read.\<close>

fun split_from :: "string \<Rightarrow> string \<Rightarrow> string \<Rightarrow> string list" where
  "split_from sep cur [] = [cur]"
| "split_from sep cur (c # cs) =
     (if startswith (c # cs) sep then cur # split_from sep [] (drop (length sep - 1) cs)
      else split_from sep (cur @ [c]) cs)"

definition split :: "string \<Rightarrow> string \<Rightarrow> string list" where
  "split sep s = split_from sep [] s"

definition lower_char :: "char \<Rightarrow> char" where
  "lower_char c =
     (case map_of (zip ''ABCDEFGHIJKLMNOPQRSTUVWXYZ'' ''abcdefghijklmnopqrstuvwxyz'') c of
        Some l \<Rightarrow> l
      | None \<Rightarrow> c)"

definition lower :: "string \<Rightarrow> string" where
  "lower s = map lower_char s"

definition is_space :: "char \<Rightarrow> bool" where
  "is_space c =
     (c \<in> set [CHR '' '', CHR 0x09, CHR 0x0A, CHR 0x0B, CHR 0x0C, CHR 0x0D,
                CHR 0x1C, CHR 0x1D, CHR 0x1E, CHR 0x1F])"

definition strip :: "string \<Rightarrow> string" where
  "strip s = rev (dropWhile is_space (rev (dropWhile is_space s)))"

text \<open>
  \<^verbatim>\<open>int(s)\<close> on a stripped string: an optional sign, then decimal digits, single underscores
  allowed between digits. \<open>None\<close> is \<^verbatim>\<open>ValueError\<close>.
\<close>

definition is_digit :: "char \<Rightarrow> bool" where
  "is_digit c = (c \<in> set ''0123456789'')"

fun parse_digits :: "int \<Rightarrow> string \<Rightarrow> int option" where
  "parse_digits acc [] = Some acc"
| "parse_digits acc [c] = (if is_digit c then Some (acc * 10 + int (digit_val c)) else None)"
| "parse_digits acc (c # d # cs) =
     (if is_digit c then parse_digits (acc * 10 + int (digit_val c)) (d # cs)
      else if c = CHR ''_'' \<and> is_digit d then parse_digits (acc * 10 + int (digit_val d)) cs
      else None)"

definition parse_unsigned :: "string \<Rightarrow> int option" where
  "parse_unsigned s =
     (case s of
        [] \<Rightarrow> None
      | c # cs \<Rightarrow> if is_digit c then parse_digits (int (digit_val c)) cs else None)"

definition py_int :: "string \<Rightarrow> int option" where
  "py_int s =
     (case s of
        [] \<Rightarrow> None
      | c # cs \<Rightarrow>
          if c = CHR ''+'' then parse_unsigned cs
          else if c = CHR ''-'' then map_option uminus (parse_unsigned cs)
          else parse_unsigned s)"

subsection \<open>\<^verbatim>\<open>http_get\<close>\<close>

text \<open>\<^verbatim>\<open>request_data = "\r\n".join(request_lines)\<close>\<close>

definition request_data :: "string \<Rightarrow> string \<Rightarrow> string" where
  "request_data host path =
     ''GET '' @ path @ '' HTTP/1.1'' @ CRLF @ ''Host: '' @ host @ CRLF
       @ ''Connection: keep-alive'' @ CRLF @ CRLF"

lemma recv_events_pending:
  "recv_events n es = Some (Some (chunk, es')) \<Longrightarrow> chunk \<noteq> [] \<Longrightarrow>
   sum_list (map event_size es') < sum_list (map event_size es)"
proof (induction n es rule: recv_events.induct)
  case (4 n bs es)
  then show ?case by (cases "n = 0") (auto split: if_splits)
qed auto

lemma recv_pending: "recv n s = Got chunk s' \<Longrightarrow> chunk \<noteq> [] \<Longrightarrow> pending s' < pending s"
  by (auto simp: recv_def pending_def split: option.splits dest: recv_events_pending)

text \<open>
  The header loop: one byte per \<^verbatim>\<open>recv(1)\<close> until \<^verbatim>\<open>b"\r\n\r\n"\<close> is in what was read. A
  closed connection or a socket error gives \<^verbatim>\<open>None\<close>.
\<close>

function read_header :: "string \<Rightarrow> sock \<Rightarrow> string option outcome" where
  "read_header response_header s =
     (case recv 1 s of
        Blocked \<Rightarrow> Blocks
      | Raised s' \<Rightarrow> Returns None s'
      | Got chunk s' \<Rightarrow>
          if chunk = [] then Returns None s'
          else if contains (CRLF @ CRLF) (response_header @ chunk)
          then Returns (Some (response_header @ chunk)) s'
          else read_header (response_header @ chunk) s')"
  by pat_completeness auto
termination
  by (relation "measure (\<lambda>(response_header, s). pending s)") (auto simp: recv_pending)

declare read_header.simps [simp del]

text \<open>
  \<^verbatim>\<open>for ln in lines[1:]:
      if ln.lower().startswith("content-length:"):
          parts_len = ln.split(":", 1)
          if len(parts_len) == 2:
              try: content_length = int(parts_len[1].strip())
              except: ...
          break\<close>
\<close>

fun find_content_length :: "string list \<Rightarrow> int" where
  "find_content_length [] = 0"
| "find_content_length (line # lines) =
     (if startswith (lower line) ''content-length:''
      then (case split_once '':'' line of
              (name, Some v) \<Rightarrow> (case py_int (strip v) of Some n \<Rightarrow> n | None \<Rightarrow> 0)
            | (name, None) \<Rightarrow> 0)
      else find_content_length lines)"

text \<open>
  The body loop. \<^verbatim>\<open>recv(to_read)\<close> returning \<^verbatim>\<open>b""\<close> (the peer closed) leaves the loop by
  \<^verbatim>\<open>break\<close>, to the \<^verbatim>\<open>return body.decode(...)\<close> after it; a socket error returns \<^verbatim>\<open>None\<close>.
\<close>

function read_body :: "string \<Rightarrow> int \<Rightarrow> sock \<Rightarrow> string option outcome" where
  "read_body body to_read s =
     (if to_read > 0
      then (case recv (nat to_read) s of
              Blocked \<Rightarrow> Blocks
            | Raised s' \<Rightarrow> Returns None s'
            | Got chunk s' \<Rightarrow>
                if chunk = [] then Returns (Some body) s'
                else read_body (body @ chunk) (to_read - int (length chunk)) s')
      else Returns (Some body) s)"
  by pat_completeness auto
termination
  by (relation "measure (\<lambda>(body, to_read, s). nat to_read)") auto

declare read_body.simps [simp del]

definition http_get :: "sock \<Rightarrow> string \<Rightarrow> string \<Rightarrow> string option outcome" where
  "http_get s host path =
     (case sendall (request_data host path) s of
        None \<Rightarrow> Returns None s
      | Some s1 \<Rightarrow>
          (case read_header [] s1 of
             Blocks \<Rightarrow> Blocks
           | Raises e \<Rightarrow> Raises e
           | Returns None s2 \<Rightarrow> Returns None s2
           | Returns (Some response_header) s2 \<Rightarrow>
               (let (header_part, rest) = split_once (CRLF @ CRLF) response_header;
                    body_already = (case rest of Some b \<Rightarrow> b | None \<Rightarrow> [])
                in case split CRLF header_part of
                     [] \<Rightarrow> Returns None s2
                   | first_line # header_lines \<Rightarrow>
                       if \<not> contains ''200'' first_line then Returns None s2
                       else read_body body_already
                              (find_content_length header_lines - int (length body_already)) s2)))"

section \<open>The record fetcher and the pagination crawler\<close>

text \<open>
  \<^verbatim>\<open>json.loads\<close> is the parameter \<open>loads\<close> of every function that decodes a body: \<open>None\<close> is
  \<^verbatim>\<open>JSONDecodeError\<close>. The \<^verbatim>\<open>port\<close> argument of the source is passed along and never used, and
  is left out.

  \<^verbatim>\<open>str(x)\<close> as an f-string formats an identifier into a request path. For a list or a dict
  it is the \<^verbatim>\<open>repr\<close>, here without the escapes Python puts into quoted strings (the path
  is only logged in \<open>outbox\<close>).
\<close>

fun join :: "string \<Rightarrow> string list \<Rightarrow> string" where
  "join sep [] = []"
| "join sep [x] = x"
| "join sep (x # y # ys) = x @ sep @ join sep (y # ys)"

fun py_repr :: "json \<Rightarrow> string" where
  "py_repr JNull = ''None''"
| "py_repr (JBool b) = (if b then ''True'' else ''False'')"
| "py_repr (JInt i) = str_int i"
| "py_repr (JStr s) = [CHR 0x27] @ s @ [CHR 0x27]"
| "py_repr (JArr xs) = ''['' @ join '', '' (map py_repr xs) @ '']''"
| "py_repr (JObj kvs) =
     ''{'' @ join '', '' (map (\<lambda>kv. [CHR 0x27] @ fst kv @ [CHR 0x27] @ '': '' @ py_repr (snd kv)) kvs)
       @ ''}''"

definition py_str :: "json \<Rightarrow> string" where
  "py_str x = (case x of JStr s \<Rightarrow> s | _ \<Rightarrow> py_repr x)"

text \<open>
  \<^verbatim>\<open>data = http_get(sock, host, port, path)
  if not data: return None
  try: return json.loads(data)
  except json.JSONDecodeError: return None\<close>
\<close>

definition get_game_info ::
  "(string \<Rightarrow> json option) \<Rightarrow> sock \<Rightarrow> string \<Rightarrow> json \<Rightarrow> json option outcome" where
  "get_game_info loads s host game_id =
     (case http_get s host (''/api/game/'' @ py_str game_id) of
        Blocks \<Rightarrow> Blocks
      | Raises e \<Rightarrow> Raises e
      | Returns None s' \<Rightarrow> Returns None s'
      | Returns (Some data) s' \<Rightarrow>
          if data = [] then Returns None s'
          else (case loads data of
                  None \<Rightarrow> Returns None s'
                | Some parsed \<Rightarrow> Returns (Some parsed) s'))"

text \<open>
  One turn of the \<^verbatim>\<open>while\<close> loop of \<^verbatim>\<open>get_top_n_games\<close> up to its \<^verbatim>\<open>for\<close> loop: the page
  request and the checks that \<^verbatim>\<open>break\<close>. \<open>Returns None\<close> is a \<^verbatim>\<open>break\<close> (transport failure,
  undecodable body, no \<^verbatim>\<open>"games"\<close> field, empty page); \<open>Returns (Some (page_games, has_next))\<close>
  is a page with its identifiers and whether \<^verbatim>\<open>parsed.get("next")\<close> is truthy. The
  \<^verbatim>\<open>print\<close> inside the \<^verbatim>\<open>try\<close> calls \<^verbatim>\<open>parsed.get\<close> and \<^verbatim>\<open>len\<close>: a payload that is not an object
  raises \<^verbatim>\<open>AttributeError\<close>, a \<^verbatim>\<open>"games"\<close> value without a length \<^verbatim>\<open>TypeError\<close>, and only
  \<^verbatim>\<open>JSONDecodeError\<close> is caught.
\<close>

definition fetch_page ::
  "(string \<Rightarrow> json option) \<Rightarrow> sock \<Rightarrow> string \<Rightarrow> string \<Rightarrow> int
     \<Rightarrow> (json list \<times> bool) option outcome" where
  "fetch_page loads s host ranking_type start =
     (case http_get s host
             (''/api/rank/'' @ ranking_type @ ''?limit='' @ str_int 50 @ ''&start='' @ str_int start) of
        Blocks \<Rightarrow> Blocks
      | Raises e \<Rightarrow> Raises e
      | Returns None s' \<Rightarrow> Returns None s'
      | Returns (Some data) s' \<Rightarrow>
          (case loads data of
             None \<Rightarrow> Returns None s'
           | Some (JObj parsed) \<Rightarrow>
               (case py_len (obj_get parsed ''games'' (JArr [])) of
                  Inl e \<Rightarrow> Raises e
                | Inr n \<Rightarrow>
                    (case map_of parsed ''games'' of
                       None \<Rightarrow> Returns None s'
                     | Some page_games \<Rightarrow>
                         if \<not> py_truthy page_games then Returns None s'
                         else (case py_iter page_games of
                                 Inl e \<Rightarrow> Raises e
                               | Inr items \<Rightarrow>
                                   Returns (Some (items, py_truthy (obj_get parsed ''next'' JNull))) s')))
           | Some other \<Rightarrow> Raises AttributeError))"

lemma recv_pending_le: "recv n s = Got chunk s' \<Longrightarrow> pending s' \<le> pending s"
proof (cases "chunk = []")
  case False
  assume "recv n s = Got chunk s'"
  with False show ?thesis using recv_pending[of n s chunk s'] by simp
next
  case True
  assume r: "recv n s = Got chunk s'"
  have "recv_events n es = Some (Some ([], es')) \<Longrightarrow>
        sum_list (map event_size es') \<le> sum_list (map event_size es)" for es es'
    by (induction n es rule: recv_events.induct) (auto split: if_splits)
  with r True show ?thesis
    by (auto simp: recv_def pending_def split: option.splits)
qed

lemma read_header_pending:
  "read_header response_header s = Returns (Some h) s' \<Longrightarrow> pending s' < pending s"
proof (induction response_header s rule: read_header.induct)
  case (1 response_header s)
  show ?case
  proof (cases "recv 1 s")
    case (Got chunk s1)
    with "1.prems" have ne: "chunk \<noteq> []"
      by (auto simp: read_header.simps[of response_header s] split: if_splits)
    note lt = recv_pending[OF Got ne]
    show ?thesis
    proof (cases "contains (CRLF @ CRLF) (response_header @ chunk)")
      case True
      with "1.prems" Got ne lt show ?thesis
        by (auto simp: read_header.simps[of response_header s])
    next
      case False
      with "1.prems" Got ne have "read_header (response_header @ chunk) s1 = Returns (Some h) s'"
        by (auto simp: read_header.simps[of response_header s])
      from "1.IH"[OF Got ne False this] lt show ?thesis by simp
    qed
  qed (use "1.prems" in \<open>auto simp: read_header.simps[of response_header s]\<close>)
qed

lemma read_body_pending:
  "read_body body to_read s = Returns r s' \<Longrightarrow> pending s' \<le> pending s"
proof (induction body to_read s rule: read_body.induct)
  case (1 body to_read s)
  show ?case
  proof (cases "to_read > 0")
    case False
    with "1.prems" show ?thesis by (simp add: read_body.simps[of body to_read s])
  next
    case pos: True
    show ?thesis
    proof (cases "recv (nat to_read) s")
      case (Got chunk s1)
      note le = recv_pending_le[OF Got]
      show ?thesis
      proof (cases "chunk = []")
        case True
        with "1.prems" pos Got le show ?thesis
          by (auto simp: read_body.simps[of body to_read s])
      next
        case False
        with "1.prems" pos Got
        have "read_body (body @ chunk) (to_read - int (length chunk)) s1 = Returns r s'"
          by (auto simp: read_body.simps[of body to_read s])
        from "1.IH"[OF pos Got False this] le show ?thesis by simp
      qed
    next
      case (Raised s1)
      have "pending s1 \<le> pending s"
      proof -
        have "sum_list (map event_size (after_fail es)) \<le> sum_list (map event_size es)" for es
          by (induction es rule: after_fail.induct) auto
        with Raised show ?thesis
          by (auto simp: recv_def pending_def split: option.splits)
      qed
      with "1.prems" pos Raised show ?thesis
        by (auto simp: read_body.simps[of body to_read s])
    next
      case Blocked
      with "1.prems" pos show ?thesis by (simp add: read_body.simps[of body to_read s])
    qed
  qed
qed

lemma sendall_pending: "sendall data s = Some s1 \<Longrightarrow> pending s1 = pending s"
  by (auto simp: sendall_def pending_def split: option.splits nat.splits)

lemma http_get_pending:
  assumes "http_get s host path = Returns (Some body) s'"
  shows "pending s' < pending s"
proof -
  from assms obtain s1 h s2 where s1: "sendall (request_data host path) s = Some s1"
    and h: "read_header [] s1 = Returns (Some h) s2"
    by (auto simp: http_get_def split: option.splits outcome.splits)
  from assms s1 h have "(\<exists>b n. read_body b n s2 = Returns (Some body) s') \<or> s' = s2"
    by (auto simp: http_get_def Let_def split: prod.splits list.splits if_splits)
  then have "pending s' \<le> pending s2"
    by (auto dest: read_body_pending)
  with read_header_pending[OF h] sendall_pending[OF s1] show ?thesis by simp
qed

lemma fetch_page_pending:
  "fetch_page loads s host ranking_type start = Returns (Some page) s' \<Longrightarrow> pending s' < pending s"
  by (auto simp: fetch_page_def split: outcome.splits option.splits json.splits sum.splits if_splits
      dest: http_get_pending)

lemma fetch_page_nonempty:
  "fetch_page loads s host ranking_type start = Returns (Some (page_games, has_next)) s' \<Longrightarrow>
   page_games \<noteq> []"
proof -
  have "py_truthy j \<Longrightarrow> py_iter j = Inr items \<Longrightarrow> items \<noteq> []" for j items
    by (cases j) auto
  moreover assume "fetch_page loads s host ranking_type start = Returns (Some (page_games, has_next)) s'"
  ultimately show ?thesis
    by (auto simp: fetch_page_def split: outcome.splits option.splits json.splits sum.splits if_splits)
qed

lemma crawl_progress:
  "a \<noteq> [] \<Longrightarrow> length g < n \<Longrightarrow> length a \<le> n - length g \<Longrightarrow>
   n - (length g + length a) < n - length g"
  by (cases a) auto

text \<open>
  \<^verbatim>\<open>get_top_n_games\<close>: the \<^verbatim>\<open>while len(game_ids) < n\<close> loop. The \<^verbatim>\<open>for\<close> loop appends the
  identifiers of the page while fewer than \<open>n\<close> are held; then an untruthy \<^verbatim>\<open>"next"\<close> ends
  the crawl, and otherwise \<^verbatim>\<open>start += limit\<close>.
\<close>

function crawl ::
  "(string \<Rightarrow> json option) \<Rightarrow> string \<Rightarrow> string \<Rightarrow> nat \<Rightarrow> json list \<Rightarrow> int \<Rightarrow> sock
     \<Rightarrow> json list outcome" where
  "crawl loads host ranking_type n game_ids start s =
     (if length game_ids < n
      then (case fetch_page loads s host ranking_type start of
              Blocks \<Rightarrow> Blocks
            | Raises e \<Rightarrow> Raises e
            | Returns None s' \<Rightarrow> Returns game_ids s'
            | Returns (Some (page_games, has_next)) s' \<Rightarrow>
                if has_next
                then crawl loads host ranking_type n
                       (game_ids @ take (n - length game_ids) page_games) (start + 50) s'
                else Returns (game_ids @ take (n - length game_ids) page_games) s')
      else Returns game_ids s)"
  by pat_completeness auto
termination
  by (relation "measure (\<lambda>(loads, host, ranking_type, n, game_ids, start, s). n - length game_ids)")
     (auto dest!: fetch_page_nonempty simp: min_def intro: crawl_progress)

declare crawl.simps [simp del]

definition get_top_n_games ::
  "(string \<Rightarrow> json option) \<Rightarrow> sock \<Rightarrow> string \<Rightarrow> string \<Rightarrow> nat \<Rightarrow> json list outcome" where
  "get_top_n_games loads s host ranking_type n = crawl loads host ranking_type n [] 1 s"

text \<open>
  The identifiers available from \<open>start\<close> on, before a stopping condition: those of the
  successive pages, up to and including the first page without a further page, and not
  beyond a page that is empty or cannot be fetched or decoded.
\<close>

function available_ids ::
  "(string \<Rightarrow> json option) \<Rightarrow> string \<Rightarrow> string \<Rightarrow> int \<Rightarrow> sock \<Rightarrow> json list" where
  "available_ids loads host ranking_type start s =
     (case fetch_page loads s host ranking_type start of
        Returns (Some (page_games, has_next)) s' \<Rightarrow>
          page_games @ (if has_next then available_ids loads host ranking_type (start + 50) s' else [])
      | Returns None s' \<Rightarrow> []
      | Raises e \<Rightarrow> []
      | Blocks \<Rightarrow> [])"
  by pat_completeness auto
termination
  by (relation "measure (\<lambda>(loads, host, ranking_type, start, s). pending s)")
     (auto dest: fetch_page_pending)

declare available_ids.simps [simp del]

section \<open>Example exchanges\<close>

text \<open>A fresh socket whose peer follows the script \<open>evs\<close>, and the bytes of a response.\<close>

definition peer :: "event list \<Rightarrow> sock" where
  "peer evs = \<lparr>inbox = evs, send_budget = None, outbox = []\<rparr>"

definition response :: "string \<Rightarrow> string list \<Rightarrow> string \<Rightarrow> string" where
  "response status_line headers body =
     status_line @ CRLF @ concat (map (\<lambda>h. h @ CRLF) headers) @ CRLF @ body"

section \<open>The placement histogram key\<close>

lemma small_cases: "n < 10 \<Longrightarrow> n \<in> {0, 1, 2, 3, 4, 5, 6, 7, 8, 9::nat}"
  by auto

lemma digit_val_digit_char: "n < 10 \<Longrightarrow> digit_val (digit_char n) = n"
  by (drule small_cases) (auto simp: digit_val_def digit_char_def)

lemma digit_upto_digit_char: "n \<le> m \<Longrightarrow> n < 10 \<Longrightarrow> digit_upto m (digit_char n)"
  by (drule small_cases) (auto simp: digit_upto_def digit_char_def)

lemma length_build_hist: "length (build_hist cs h) = length h"
  by (induction cs arbitrary: h) auto

lemma nth_build_hist:
  "length h = 8 \<Longrightarrow> i < 8 \<Longrightarrow>
   build_hist cs h ! i =
     h ! i + int (length (filter (\<lambda>c. (if 0 \<le> c \<and> c \<le> 7 then nat c else 7) = i) cs))"
  by (induction cs arbitrary: h) (auto simp: nth_list_update)

lemma build_hist_replicate:
  "build_hist cs (replicate 8 0) =
     map (\<lambda>i. int (length (filter (\<lambda>c. (if 0 \<le> c \<and> c \<le> 7 then nat c else 7) = i) cs))) [0..<8]"
  by (rule nth_equalityI) (simp_all add: length_build_hist nth_build_hist del: upt_Suc)

lemma digits_small: "n < 10 \<Longrightarrow> digits n = [digit_char n]"
  by (simp add: digits.simps)

lemma str_int_small: "n < 10 \<Longrightarrow> str_int (int n) = [digit_char n]"
  by (simp add: str_int_def digits_small)

lemma hist_key_eq:
  assumes "length rcs = 8"
  shows "hist_key rcs = map (\<lambda>i. digit_char (bin_size rcs i)) [0..<8]"
proof -
  have small: "bin_size rcs i < 10" for i
  proof -
    have "bin_size rcs i \<le> length rcs"
      unfolding bin_size_def by (rule length_filter_le)
    then show ?thesis using assms by simp
  qed
  have "hist_key rcs = concat (map (\<lambda>i. str_int (int (bin_size rcs i))) [0..<8])"
    by (simp add: hist_key_def build_hist_replicate bin_size_def comp_def del: upt_Suc)
  also have "\<dots> = concat (map (\<lambda>i. [digit_char (bin_size rcs i)]) [0..<8])"
    by (simp add: str_int_small[OF small] del: upt_Suc)
  also have "\<dots> = map (\<lambda>i. digit_char (bin_size rcs i)) [0..<8]"
    by (induction "[0..<8]") (simp_all del: upt_Suc add: concat_map_singleton)
  finally show ?thesis .
qed

lemma sum_count_bins:
  "\<forall>c\<in>set xs. f c < n \<Longrightarrow> (\<Sum>i\<leftarrow>[0..<n]. length (filter (\<lambda>c. f c = i) xs)) = length xs"
proof (induction xs)
  case Nil
  then show ?case by simp
next
  case (Cons c xs)
  have one: "(\<Sum>i\<leftarrow>[0..<n]. if f c = i then 1 else 0) = (1::nat)"
    using Cons.prems by (simp add: interv_sum_list_conv_sum_set_nat)
  have "(\<Sum>i\<leftarrow>[0..<n]. length (filter (\<lambda>c. f c = i) (c # xs)))
      = (\<Sum>i\<leftarrow>[0..<n]. length (filter (\<lambda>c. f c = i) xs) + (if f c = i then 1 else 0))"
    by (intro arg_cong[where f = sum_list] map_cong) auto
  also have "\<dots> = (\<Sum>i\<leftarrow>[0..<n]. length (filter (\<lambda>c. f c = i) xs)) + 1"
    by (simp only: sum_list_addf one)
  finally show ?case using Cons by simp
qed

lemma sum_bin_size: "(\<Sum>i\<leftarrow>[0..<8]. bin_size rcs i) = length rcs"
  unfolding bin_size_def by (rule sum_count_bins) auto

lemma dict_find_nonneg:
  "list_all (\<lambda>kv. 0 \<le> snd kv) d \<Longrightarrow> dict_find k d = Some v \<Longrightarrow> (0::int) \<le> v"
  by (induction d) (auto split: if_splits)

lemma dict_get_nonneg: "list_all (\<lambda>kv. 0 \<le> snd kv) d \<Longrightarrow> (0::int) \<le> dict_get d k 0"
  by (auto simp: dict_get_def split: option.splits dest: dict_find_nonneg)

lemma dict_set_nonneg:
  "list_all (\<lambda>kv. 0 \<le> snd kv) d \<Longrightarrow> (0::int) \<le> v \<Longrightarrow> list_all (\<lambda>kv. 0 \<le> snd kv) (dict_set k v d)"
  by (induction d) auto

lemma count_rows_nonneg:
  "count_rows items rc = Inr rc' \<Longrightarrow> list_all (\<lambda>kv. 0 \<le> snd kv) rc \<Longrightarrow> list_all (\<lambda>kv. 0 \<le> snd kv) rc'"
proof (induction items rc rule: count_rows.induct)
  case (2 row_idx c cs rest row_counters)
  have "list_all (\<lambda>kv. 0 \<le> snd kv) (dict_set row_idx (dict_get row_counters row_idx 0 + 1) row_counters)"
    using "2.prems"(2) dict_get_nonneg[of row_counters row_idx] by (intro dict_set_nonneg) auto
  then show ?case using 2 by (auto split: if_splits)
qed auto

lemma count_rows_total:
  "list_all row_idx_hashable items \<Longrightarrow> \<exists>rc'. count_rows items rc = Inr rc'"
  by (induction items rc rule: count_rows.induct) auto

lemma cannon_row_counts_shape:
  assumes "cannon_row_counts cannons = Inr rcs"
  shows "length rcs = 8" and "list_all (\<lambda>c. 0 \<le> c) rcs"
proof -
  from assms obtain items rc where rc: "count_rows items [] = Inr rc" and rcs: "rcs = row_counts rc"
    by (auto simp: cannon_row_counts_def split: sum.splits)
  show "length rcs = 8" by (simp add: rcs row_counts_def)
  have "list_all (\<lambda>kv. 0 \<le> snd kv) rc" using count_rows_nonneg[OF rc] by simp
  then show "list_all (\<lambda>c. 0 \<le> c) rcs"
    by (simp add: rcs row_counts_def list_all_iff dict_get_nonneg del: upt_Suc)
qed

lemma bin_size_min:
  assumes "list_all (\<lambda>c. 0 \<le> c) rcs"
  shows "bin_size rcs i = length (filter (\<lambda>c. min c 7 = int i) rcs)"
proof -
  have "filter (\<lambda>c. (if 0 \<le> c \<and> c \<le> 7 then nat c else 7) = i) rcs
      = filter (\<lambda>c. min c 7 = int i) rcs"
    using assms by (intro filter_cong refl) (auto simp: list_all_iff min_def)
  then show ?thesis by (simp add: bin_size_def)
qed

text \<open>
  C2, as the code has it. The key is the decimal digits of the eight bins, and a bin counts
  rows: every character is a digit between 0 and 8 (8 when all eight rows hold the same
  number of placements), and the digit at position \<open>i\<close> is the number of rows whose placement
  count, clamped to at most 7, is \<open>i\<close>. So a row with 7 or more placements is counted in
  bin 7.
\<close>

theorem placement_str_digits_upto_8:
  assumes "cannon_row_counts cannons = Inr rcs"
  shows "placement_str cannons = Inr (hist_key rcs)
       \<and> list_all (digit_upto 8) (hist_key rcs)
       \<and> map digit_val (hist_key rcs)
           = map (\<lambda>i. length (filter (\<lambda>c. min c 7 = int i) rcs)) [0..<8]"
proof -
  note shape = cannon_row_counts_shape[OF assms]
  have le8: "bin_size rcs i \<le> 8" for i
  proof -
    have "bin_size rcs i \<le> length rcs"
      unfolding bin_size_def by (rule length_filter_le)
    then show ?thesis using shape(1) by simp
  qed
  have key: "hist_key rcs = map (\<lambda>i. digit_char (bin_size rcs i)) [0..<8]"
    by (rule hist_key_eq[OF shape(1)])
  have "list_all (digit_upto 8) (hist_key rcs)"
    unfolding key list_all_iff using le8 by (auto intro!: digit_upto_digit_char le_less_trans[OF le8])
  moreover have "map digit_val (hist_key rcs) = map (\<lambda>i. bin_size rcs i) [0..<8]"
    unfolding key using le8 by (simp add: digit_val_digit_char le_less_trans[OF le8] del: upt_Suc)
  ultimately show ?thesis
    using assms by (simp add: placement_str_def bin_size_min[OF shape(2)] del: upt_Suc)
qed

text \<open>Three placements in row 0: seven rows in bin 0, one row in bin 3.\<close>

theorem placement_str_digits_upto_8_witness:
  "placement_str (JArr [JArr [JInt 0, JInt 1], JArr [JInt 0, JInt 2], JArr [JInt 0, JInt 3]])
     = Inr ''70010000''
   \<and> list_all (digit_upto 8) ''70010000''
   \<and> map digit_val ''70010000'' = [7, 0, 0, 1, 0, 0, 0, 0]"
proof -
  have rc: "cannon_row_counts (JArr [JArr [JInt 0, JInt 1], JArr [JInt 0, JInt 2], JArr [JInt 0, JInt 3]])
      = Inr [3, 0, 0, 0, 0, 0, 0, 0]"
    by code_simp
  have k: "hist_key [3, 0, 0, 0, 0, 0, 0, 0] = ''70010000''"
    by code_simp
  have "map digit_val ''70010000'' = [7, 0, 0, 1, 0, 0, 0, 0]"
    by (simp add: digit_val_def)
  with placement_str_digits_upto_8[OF rc] show ?thesis
    unfolding k by simp
qed

text \<open>
  C2 as stated fails: a record without placements has all eight rows in bin 0, and its key
  starts with the digit 8.
\<close>

theorem placement_str_digit_8_counterexample:
  "placement_str (JArr []) = Inr ''80000000'' \<and> \<not> list_all (digit_upto 7) ''80000000''"
proof -
  have "placement_str (JArr []) = Inr ''80000000''" by code_simp
  moreover have "\<not> list_all (digit_upto 7) ''80000000''" by (simp add: digit_upto_def)
  ultimately show ?thesis by simp
qed

text \<open>
  C4. Whenever \<^verbatim>\<open>analysis_top_meta\<close> derives a key from a record's placement sequence, the key
  is exactly 8 characters long and its digit values add up to 8: each of the 8 rows falls
  into exactly one bin. A key is derived for every sequence whose counted entries have a
  hashable row index (the loop raises \<^verbatim>\<open>TypeError\<close> otherwise).
\<close>

theorem placement_str_length_and_sum:
  "(placement_str cannons = Inr k \<longrightarrow> length k = 8 \<and> sum_list (map digit_val k) = 8)
   \<and> (py_iter cannons = Inr items \<and> list_all row_idx_hashable items
        \<longrightarrow> (\<exists>k. placement_str cannons = Inr k))"
proof (intro conjI impI)
  assume "py_iter cannons = Inr items \<and> list_all row_idx_hashable items"
  then show "\<exists>k. placement_str cannons = Inr k"
    using count_rows_total[of items "[]"]
    by (auto simp: placement_str_def cannon_row_counts_def)
next
  assume k: "placement_str cannons = Inr k"
  then obtain rcs where rcs: "cannon_row_counts cannons = Inr rcs" and kk: "k = hist_key rcs"
    by (auto simp: placement_str_def split: sum.splits)
  note shape = cannon_row_counts_shape[OF rcs]
  have le8: "bin_size rcs i \<le> 8" for i
  proof -
    have "bin_size rcs i \<le> length rcs"
      unfolding bin_size_def by (rule length_filter_le)
    then show ?thesis using shape(1) by simp
  qed
  have key: "k = map (\<lambda>i. digit_char (bin_size rcs i)) [0..<8]"
    unfolding kk by (rule hist_key_eq[OF shape(1)])
  show "length k = 8" by (simp add: key)
  have "map digit_val k = map (\<lambda>i. bin_size rcs i) [0..<8]"
    unfolding key using le8 by (simp add: digit_val_digit_char le_less_trans[OF le8] del: upt_Suc)
  then show "sum_list (map digit_val k) = 8"
    using sum_bin_size[of rcs] shape(1) by simp
qed

theorem placement_str_length_and_sum_witness:
  "placement_str (JArr [JArr [JInt 0, JInt 1], JArr [JBool True, JInt 2], JArr [JInt 9], JStr ''x''])
     = Inr ''62000000''
   \<and> length ''62000000'' = 8 \<and> sum_list (map digit_val ''62000000'') = 8
   \<and> py_iter (JArr [JArr [JInt 0, JInt 1], JArr [JBool True, JInt 2], JArr [JInt 9], JStr ''x''])
     = Inr [JArr [JInt 0, JInt 1], JArr [JBool True, JInt 2], JArr [JInt 9], JStr ''x'']
   \<and> list_all row_idx_hashable [JArr [JInt 0, JInt 1], JArr [JBool True, JInt 2], JArr [JInt 9], JStr ''x'']"
proof -
  have p: "placement_str (JArr [JArr [JInt 0, JInt 1], JArr [JBool True, JInt 2], JArr [JInt 9], JStr ''x''])
      = Inr ''62000000''"
    by code_simp
  from placement_str_length_and_sum[of "JArr [JArr [JInt 0, JInt 1], JArr [JBool True, JInt 2], JArr [JInt 9], JStr ''x'']" "''62000000''"
      "[JArr [JInt 0, JInt 1], JArr [JBool True, JInt 2], JArr [JInt 9], JStr ''x'']"]
  show ?thesis using p by simp
qed

section \<open>Framing of the response\<close>

lemma startswith_Nil [simp]: "startswith s [] = True"
  by (simp add: startswith_def)

lemma take_prefix: "n \<le> length xs \<Longrightarrow> take n (xs @ ys) = take n xs"
  by simp

lemma find_sub_bound: "find_sub sub s = Some i \<Longrightarrow> i + length sub \<le> length s \<and> take (length sub) (drop i s) = sub"
proof (induction s arbitrary: i)
  case Nil
  then show ?case by (auto split: if_splits)
next
  case (Cons c cs)
  show ?case
  proof (cases "startswith (c # cs) sub")
    case True
    with Cons.prems have "i = 0" by simp
    moreover from True have "take (length sub) (c # cs) = sub" by (simp add: startswith_def)
    moreover have "length sub \<le> length (c # cs)"
    proof -
      have "length (take (length sub) (c # cs)) = length sub"
        using True by (simp add: startswith_def)
      then show ?thesis unfolding length_take by linarith
    qed
    ultimately show ?thesis by simp
  next
    case False
    with Cons.prems obtain j where j: "find_sub sub cs = Some j" "i = Suc j" by auto
    from Cons.IH[OF j(1)] j(2) show ?thesis by simp
  qed
qed

lemma find_sub_snoc:
  "\<not> contains sub acc \<Longrightarrow> contains sub (acc @ [c]) \<Longrightarrow>
   \<exists>pre. acc @ [c] = pre @ sub \<and> find_sub sub (acc @ [c]) = Some (length pre)"
proof (induction acc)
  case Nil
  then have ne: "sub \<noteq> []" by (auto simp: contains_def)
  with Nil have "take (length sub) [c] = sub"
    by (auto simp: contains_def startswith_def split: if_splits)
  with ne have "sub = [c]" by (cases sub) (auto split: if_splits)
  then show ?case by (auto simp: startswith_def)
next
  case (Cons a acc)
  from Cons.prems(1) have ns: "\<not> startswith (a # acc) sub" and nc: "\<not> contains sub acc"
    by (auto simp: contains_def split: if_splits)
  show ?case
  proof (cases "startswith (a # acc @ [c]) sub")
    case True
    then have t: "take (length sub) (a # acc @ [c]) = sub" by (simp add: startswith_def)
    have "length sub > length (a # acc)"
    proof (rule ccontr)
      assume "\<not> length sub > length (a # acc)"
      then have le: "length sub \<le> length (a # acc)" by simp
      from take_prefix[OF le, of "[c]"] t have "take (length sub) (a # acc) = sub" by simp
      with ns show False by (simp add: startswith_def)
    qed
    with t have e: "(a # acc) @ [c] = [] @ sub" by simp
    have f: "find_sub sub ((a # acc) @ [c]) = Some (length ([]::string))"
      using True by simp
    from e f show ?thesis by blast
  next
    case False
    with Cons.prems(2) have "contains sub (acc @ [c])"
      by (auto simp: contains_def)
    from Cons.IH[OF nc this] obtain pre where "acc @ [c] = pre @ sub"
      "find_sub sub (acc @ [c]) = Some (length pre)" by blast
    with False show ?thesis by (intro exI[of _ "a # pre"]) simp
  qed
qed

lemma recv_events_length: "recv_events n es = Some (Some (chunk, es')) \<Longrightarrow> length chunk \<le> n"
  by (induction n es rule: recv_events.induct) (auto split: if_splits)

lemma recv_length: "recv n s = Got chunk s' \<Longrightarrow> length chunk \<le> n"
  by (auto simp: recv_def split: option.splits dest: recv_events_length)

lemma read_header_terminator:
  "read_header acc s = Returns (Some h) s' \<Longrightarrow> \<not> contains sub acc \<Longrightarrow> sub = CRLF @ CRLF \<Longrightarrow>
   \<exists>pre. h = pre @ sub \<and> find_sub sub h = Some (length pre)"
proof (induction acc s rule: read_header.induct)
  case (1 response_header s)
  show ?case
  proof (cases "recv 1 s")
    case (Got chunk s1)
    with "1.prems" have ne: "chunk \<noteq> []"
      by (auto simp: read_header.simps[of response_header s] split: if_splits)
    from recv_length[OF Got] ne obtain c where c: "chunk = [c]"
      by (cases chunk) auto
    show ?thesis
    proof (cases "contains (CRLF @ CRLF) (response_header @ chunk)")
      case True
      with "1.prems" Got ne have "h = response_header @ chunk"
        by (auto simp: read_header.simps[of response_header s])
      with find_sub_snoc[of sub response_header c] True "1.prems"(2,3) c show ?thesis by simp
    next
      case False
      with "1.prems" Got ne have "read_header (response_header @ chunk) s1 = Returns (Some h) s'"
        by (auto simp: read_header.simps[of response_header s])
      from "1.IH"[OF Got ne False this] False "1.prems"(3) show ?thesis by simp
    qed
  qed (use "1.prems" in \<open>auto simp: read_header.simps[of response_header s]\<close>)
qed

lemma read_header_split:
  assumes "read_header [] s = Returns (Some h) s'"
  shows "\<exists>header_part. split_once (CRLF @ CRLF) h = (header_part, Some [])"
proof -
  have "\<not> contains (CRLF @ CRLF) []" by (simp add: contains_def CRLF_def)
  from read_header_terminator[OF assms this refl]
  show ?thesis by (auto simp: split_once_def)
qed

lemma read_body_done: "to_read \<le> 0 \<Longrightarrow> read_body body to_read s = Returns (Some body) s"
  by (simp add: read_body.simps[of body to_read s])

lemma http_get_no_body:
  assumes "sendall (request_data host path) s = Some s1"
    and "read_header [] s1 = Returns (Some response_header) s2"
    and "split CRLF (fst (split_once (CRLF @ CRLF) response_header)) = first_line # header_lines"
    and "contains ''200'' first_line"
    and "find_content_length header_lines \<le> 0"
  shows "http_get s host path = Returns (Some []) s2"
proof -
  from read_header_split[OF assms(2)] obtain header_part
    where sp: "split_once (CRLF @ CRLF) response_header = (header_part, Some [])" by blast
  with assms(3) have "split CRLF header_part = first_line # header_lines" by simp
  with assms(1,2,4,5) sp show ?thesis
    by (simp add: http_get_def read_body_done)
qed









text \<open>
  C1 fails on the code. The peer sends a 200 response that declares 5 body bytes, delivers 2
  and closes: \<^verbatim>\<open>recv\<close> returns \<^verbatim>\<open>b""\<close>, the body loop is left by \<^verbatim>\<open>break\<close>, and the 2 bytes are
  returned as the body.
\<close>

theorem http_get_returns_truncated_body:
  "http_get (peer [Chunk (response ''HTTP/1.1 200 OK'' [''Content-Length: 5''] ''ab''), Eof])
       ''h'' ''/api/game/1''
     = Returns (Some ''ab'')
         \<lparr>inbox = [Eof], send_budget = None, outbox = [request_data ''h'' ''/api/game/1'']\<rparr>"
  by code_simp

text \<open>
  C5 fails on the code. The status test is \<^verbatim>\<open>"200" not in first_line\<close>, a substring test on
  the whole status line: a 404 response whose reason phrase mentions 200 is taken for a
  success and its body is returned.
\<close>

theorem http_get_accepts_404_mentioning_200:
  "http_get (peer [Chunk (response ''HTTP/1.1 404 Game 200 not found'' [''Content-Length: 9'']
                            ''not found'')])
       ''h'' ''/api/game/200''
     = Returns (Some ''not found'')
         \<lparr>inbox = [], send_budget = None, outbox = [request_data ''h'' ''/api/game/200'']\<rparr>"
  by code_simp


end
